theory Spec2Isabelle
  imports Complex_Main "HOL-Library.Word"
begin

unbundle bit_operations_syntax

section \<open>Depth encoding and frame tweening of meshFromKinect\<close>

text \<open>
  The theory embeds the two public methods of \<^verbatim>\<open>src/share/meshFromKinect-old.js\<close>,
  \<^verbatim>\<open>updateCanvasData\<close> and \<^verbatim>\<open>tweenCanvasData\<close>, and the three fields of the
  object they work on.

  Numbers. A JavaScript number is a double; it is represented here by the rational it
  denotes. The step counter only ever holds integers and is an \<open>int\<close>. The quotient,
  the difference, the products and the sum that the tween computes (lines 435, 436 and
  462-464) are each rounded to the nearest double by \<open>binary64\<close>. The per-sample encoding
  is written without rounding: every number it computes from two bytes is an integer
  multiple of \<open>1/1024\<close> of magnitude below \<open>2^24\<close>, which is a double, and the theory proves
  that \<open>binary64\<close> leaves such numbers as they are.

  The pixel array. \<^verbatim>\<open>this.imageData.data\<close> is a \<^verbatim>\<open>Uint8ClampedArray\<close>. Neither method reads
  it, so the field \<open>imageData\<close> keeps for every entry the number that was last assigned
  to it, and \<open>imageBytes\<close> gives the bytes the array holds, which are the conversions
  of those numbers by \<open>toUint8Clamp\<close>. An assignment to an index past the end of a typed
  array is ignored, which is what \<open>xs[i := v]\<close> does.
\<close>

subsection \<open>JavaScript numbers\<close>

text \<open>
  The integer nearest to a rational, the even one of the two when it lies half way. This
  is the rounding of IEEE 754 arithmetic and of the conversion \<^verbatim>\<open>ToUint8Clamp\<close>.
\<close>

definition roundTiesToEven :: "rat \<Rightarrow> int" where
  "roundTiesToEven r =
     (let f = \<lfloor>r\<rfloor> in
      if r - of_int f < 1 / 2 then f
      else if 1 / 2 < r - of_int f then f + 1
      else if even f then f else f + 1)"

text \<open>The number of binary digits of a positive integer, and 0 otherwise.\<close>

function bitLength :: "int \<Rightarrow> nat" where
  "bitLength n = (if n \<le> 0 then 0 else Suc (bitLength (n div 2)))"
  by pat_completeness auto
termination
  by (relation "measure nat") auto

declare bitLength.simps [simp del]

text \<open>
  The binary exponent of a rational other than 0: the \<open>e\<close> with \<open>2^e \<le> |x| < 2^(e+1)\<close>.
\<close>

definition exponent :: "rat \<Rightarrow> int" where
  "exponent x =
     (if 1 \<le> \<bar>x\<bar> then int (bitLength \<lfloor>\<bar>x\<bar>\<rfloor>) - 1
      else - int (bitLength (\<lceil>1 / \<bar>x\<bar>\<rceil> - 1)))"

text \<open>
  The result of an arithmetic operation on doubles: the exact result rounded to 53
  significant binary digits, to nearest, ties to even. Overflow to \<^verbatim>\<open>Infinity\<close> (from
  \<open>2^1024\<close>) and the coarser spacing of subnormal numbers (below \<open>2^-1022\<close>) are not
  represented. With two-byte samples and the step counter of a reachable object, 0 to 25,
  every non-zero number the tween computes has a magnitude between \<open>2^-8\<close> and \<open>2^14\<close>.
\<close>

definition binary64 :: "rat \<Rightarrow> rat" where
  "binary64 x =
     (if x = 0 then 0
      else let e = exponent x;
               ulp = (if 52 \<le> e then 2 ^ nat (e - 52) else 1 / 2 ^ nat (52 - e))
           in of_int (roundTiesToEven (x / ulp)) * ulp)"

text \<open>
  \<^verbatim>\<open>ToUint8Clamp\<close>, the conversion a \<^verbatim>\<open>Uint8ClampedArray\<close> applies to a number that is
  assigned to one of its entries.
\<close>

definition toUint8Clamp :: "rat \<Rightarrow> nat" where
  "toUint8Clamp v = (if v \<le> 0 then 0 else if 255 \<le> v then 255 else nat (roundTiesToEven v))"

subsection \<open>Data\<close>

type_synonym byte = "8 word"

text \<open>
  What a field or a parameter that is meant to hold a depth frame can hold: \<^verbatim>\<open>null\<close>
  (the constructor's initial value), \<^verbatim>\<open>undefined\<close> (the argument of a call made with
  no argument) or a \<^verbatim>\<open>Uint8Array\<close>.
\<close>

datatype depthData = Null | Undefined | Uint8Array "byte list"

datatype error = TypeError

record meshFromKinect =
  imageData :: "rat list"
  prevCanvasData :: depthData
  newCanvasData :: depthData
  fadeCnt :: int


subsection \<open>The per-sample arithmetic\<close>

text \<open>
  Modelled from the spec: \<^verbatim>\<open>BB.MathUtils.map\<close> belongs to a library that is not among
  the source files. The specification gives it as the linear remap
  \<^verbatim>\<open>outMin + (value - inMin) * (outMax - outMin) / (inMax - inMin)\<close>, with no clamping.
\<close>

definition BB_MathUtils_map :: "rat \<Rightarrow> rat \<Rightarrow> rat \<Rightarrow> rat \<Rightarrow> rat \<Rightarrow> rat" where
  "BB_MathUtils_map value inMin inMax outMin outMax =
     outMin + (value - inMin) * (outMax - outMin) / (inMax - inMin)"

text \<open>
  An element read that is used as an operand of \<^verbatim>\<open><<\<close> or \<^verbatim>\<open>|\<close>. Reading a typed
  array past its end gives \<^verbatim>\<open>undefined\<close>, and the bitwise operators convert that to 0.
\<close>

definition operand :: "byte list \<Rightarrow> nat \<Rightarrow> int" where
  "operand a i = (if i < length a then uint (a ! i) else 0)"

text \<open>\<^verbatim>\<open>a[i+1] << 8 | a[i]\<close>, lines 385, 440 and 450.\<close>

definition total_of :: "byte list \<Rightarrow> nat \<Rightarrow> int" where
  "total_of a i = push_bit 8 (operand a (i + 1)) OR operand a i"

text \<open>
  The source writes the conditional that turns a total into two channel values three
  times. Each copy has its own definition: \<open>val\<close> is \<^verbatim>\<open>(val1, val2)\<close> of lines 387-394,
  \<open>prev\<close> is \<^verbatim>\<open>(prev1, prev2)\<close> of lines 441-448 and \<open>new\<close> is \<^verbatim>\<open>(new1, new2)\<close> of
  lines 451-458.
\<close>

definition val :: "int \<Rightarrow> rat \<times> rat" where
  "val t =
     (if t > 1024 then (0, BB_MathUtils_map (of_int (2048 - t)) 0 1024 255 0)
      else (BB_MathUtils_map (of_int t) 0 1024 255 0, 255))"

definition prev :: "int \<Rightarrow> rat \<times> rat" where
  "prev prevTotal =
     (if prevTotal > 1024 then (0, BB_MathUtils_map (of_int (2048 - prevTotal)) 0 1024 255 0)
      else (BB_MathUtils_map (of_int prevTotal) 0 1024 255 0, 255))"

definition new :: "int \<Rightarrow> rat \<times> rat" where
  "new newTotal =
     (if newTotal > 1024 then (0, BB_MathUtils_map (of_int (2048 - newTotal)) 0 1024 255 0)
      else (BB_MathUtils_map (of_int newTotal) 0 1024 255 0, 255))"

subsection \<open>updateCanvasData\<close>

text \<open>
  The loop of lines 383-402, \<^verbatim>\<open>for (var i = 0; i < depth.length; i += 2)\<close> with the
  write index \<open>j\<close> advancing by 4.
\<close>

function updateLoop :: "byte list \<Rightarrow> nat \<Rightarrow> nat \<Rightarrow> rat list \<Rightarrow> rat list" where
  "updateLoop depth i j data =
     (if i < length depth then
        updateLoop depth (i + 2) (j + 4)
          (data[j := fst (val (total_of depth i)),
                j + 1 := snd (val (total_of depth i)),
                j + 2 := snd (val (total_of depth i)),
                j + 3 := 255])
      else data)"
  by pat_completeness auto
termination
  by (relation "measure (\<lambda>(depth, i, j, data). length depth - i)") auto

declare updateLoop.simps [simp del]

definition updateCanvasData :: "byte list \<Rightarrow> meshFromKinect \<Rightarrow> meshFromKinect" where
  "updateCanvasData depth s = s\<lparr>imageData := updateLoop depth 0 0 (imageData s)\<rparr>"

subsection \<open>tweenCanvasData\<close>

definition steps :: int where
  "steps = 25"

text \<open>
  The loop of lines 438-468. It runs over the length of the previous frame and reads the
  new frame at the same indices. Each product and each sum of lines 462-464 is a double;
  the array turns the double it is given into a byte, which \<open>imageBytes\<close> accounts for.
  \<^verbatim>\<open>this.newCanvasData[i+1]\<close> throws a TypeError when the field holds \<^verbatim>\<open>null\<close> or
  \<^verbatim>\<open>undefined\<close>; the error carries the pixel array as it is at that moment.
\<close>

function tweenLoop ::
  "byte list \<Rightarrow> depthData \<Rightarrow> rat \<Rightarrow> rat \<Rightarrow> nat \<Rightarrow> nat \<Rightarrow> rat list \<Rightarrow> (error \<times> rat list) + rat list"
where
  "tweenLoop prevData newData prevFade newFade i j data =
     (if i < length prevData then
        (case newData of
           Uint8Array nw \<Rightarrow>
             tweenLoop prevData newData prevFade newFade (i + 2) (j + 4)
               (data[j := binary64 (binary64 (fst (prev (total_of prevData i)) * prevFade) +
                                    binary64 (fst (new (total_of nw i)) * newFade)),
                     j + 1 := binary64 (binary64 (snd (prev (total_of prevData i)) * prevFade) +
                                        binary64 (snd (new (total_of nw i)) * newFade)),
                     j + 2 := binary64 (binary64 (snd (prev (total_of prevData i)) * prevFade) +
                                        binary64 (snd (new (total_of nw i)) * newFade)),
                     j + 3 := 255])
         | _ \<Rightarrow> Inl (TypeError, data))
      else Inr data)"
  by pat_completeness auto
termination
  by (relation "measure (\<lambda>(prevData, newData, prevFade, newFade, i, j, data). length prevData - i)") auto

declare tweenLoop.simps [simp del]

text \<open>The argument of a call: none (\<^verbatim>\<open>undefined\<close>) or a frame.\<close>

definition argument :: "byte list option \<Rightarrow> depthData" where
  "argument depth = (case depth of None \<Rightarrow> Undefined | Some d \<Rightarrow> Uint8Array d)"

text \<open>
  The two weights of lines 435 and 436, as functions of \<^verbatim>\<open>this.fadeCnt\<close>. Each is a
  double: a quotient, and 1 minus that quotient.
\<close>

definition newFade :: "int \<Rightarrow> rat" where
  "newFade cnt = binary64 (of_int cnt / of_int steps)"

definition prevFade :: "int \<Rightarrow> rat" where
  "prevFade cnt = binary64 (1 - binary64 (of_int cnt / of_int steps))"

text \<open>
  The \<^verbatim>\<open>else\<close> branch of \<^verbatim>\<open>tweenCanvasData\<close>, lines 427-483. \<^verbatim>\<open>this.prevCanvasData.length\<close>
  throws a TypeError when the field holds \<^verbatim>\<open>null\<close> or \<^verbatim>\<open>undefined\<close>. An error carries the
  object as the throw leaves it. The last \<^verbatim>\<open>else\<close> requests an animation frame whose
  callback is the call \<^verbatim>\<open>self.tweenCanvasData()\<close>; the request changes none of the fields,
  and the callback is a call with no argument.
\<close>

definition tweenElse ::
  "byte list option \<Rightarrow> meshFromKinect \<Rightarrow> (error \<times> meshFromKinect) + meshFromKinect" where
  "tweenElse depth s =
     (let s1 = (if fadeCnt s = 0
                then s\<lparr>prevCanvasData := newCanvasData s, newCanvasData := argument depth\<rparr>
                else s)
      in case prevCanvasData s1 of
           Uint8Array prevData \<Rightarrow>
             (case tweenLoop prevData (newCanvasData s1) (prevFade (fadeCnt s1))
                     (newFade (fadeCnt s1)) 0 0 (imageData s1) of
                Inl (e, data) \<Rightarrow> Inl (e, s1\<lparr>imageData := data\<rparr>)
              | Inr data \<Rightarrow>
                  (let s2 = s1\<lparr>imageData := data, fadeCnt := fadeCnt s1 + 1\<rparr>
                   in if fadeCnt s2 > steps then Inr (s2\<lparr>fadeCnt := 0\<rparr>) else Inr s2))
         | _ \<Rightarrow> Inl (TypeError, s1))"

text \<open>
  \<^verbatim>\<open>tweenCanvasData\<close>, lines 416-486. When no frame has been stored yet the method stores
  its argument and calls itself with \<^verbatim>\<open>this.newCanvasData\<close>, which is that argument.
\<close>

function tweenCanvasData ::
  "byte list option \<Rightarrow> meshFromKinect \<Rightarrow> (error \<times> meshFromKinect) + meshFromKinect" where
  "tweenCanvasData depth s =
     (if newCanvasData s = Null then
        tweenCanvasData depth (s\<lparr>newCanvasData := argument depth\<rparr>)
      else tweenElse depth s)"
  by pat_completeness auto
termination
  by (relation "measure (\<lambda>(depth, s). if newCanvasData s = Null then 1 else 0)")
     (auto simp: argument_def split: option.splits)

declare tweenCanvasData.simps [simp del]

text \<open>
  The part of the constructor that concerns tweening, lines 71 and 102-105: a pixel array
  of 640 by 480 transparent black pixels, no previous frame, the optional \<^verbatim>\<open>initDepth\<close>
  as the new frame, and a first call when \<^verbatim>\<open>initDepth\<close> is given.
\<close>

definition constructor ::
  "byte list option \<Rightarrow> (error \<times> meshFromKinect) + meshFromKinect" where
  "constructor initDepth =
     (let s = \<lparr>imageData = replicate (640 * 480 * 4) 0,
               prevCanvasData = Null,
               newCanvasData = (case initDepth of None \<Rightarrow> Null | Some d \<Rightarrow> Uint8Array d),
               fadeCnt = 0\<rparr>
      in case initDepth of None \<Rightarrow> Inr s | Some d \<Rightarrow> tweenCanvasData (Some d) s)"

subsection \<open>Animation frames\<close>


subsection \<open>Reachable objects\<close>

text \<open>
  The objects a program can hold: what the constructor returns, and what a call of either
  public method leaves behind, whether the call returns or throws. The callback of an
  animation frame is a call of \<^verbatim>\<open>tweenCanvasData\<close> without argument; it is allowed here
  at any moment, which covers every order in which callbacks and calls can interleave.
\<close>

inductive reachable :: "meshFromKinect \<Rightarrow> bool" where
  constructed: "constructor initDepth = Inr s \<Longrightarrow> reachable s"
| updated: "reachable s \<Longrightarrow> reachable (updateCanvasData depth s)"
| tweened: "reachable s \<Longrightarrow> tweenCanvasData depth s = Inr s' \<Longrightarrow> reachable s'"
| thrown: "reachable s \<Longrightarrow> tweenCanvasData depth s = Inl (e, s') \<Longrightarrow> reachable s'"

subsection \<open>Notation for the statements\<close>

text \<open>
  The number that the update loop assigns to channel \<open>ch\<close> (0 to 3) of the pixel whose
  sample starts at byte index \<open>i\<close>, lines 396-399, and the number that the tween loop
  assigns to it, lines 462-465.
\<close>

definition plain :: "byte list \<Rightarrow> nat \<Rightarrow> nat \<Rightarrow> rat" where
  "plain d i ch =
     (if ch = 0 then fst (val (total_of d i))
      else if ch = 3 then 255
      else snd (val (total_of d i)))"

definition blend :: "byte list \<Rightarrow> byte list \<Rightarrow> rat \<Rightarrow> rat \<Rightarrow> nat \<Rightarrow> nat \<Rightarrow> rat" where
  "blend p c pf nf i ch =
     (if ch = 0 then binary64 (binary64 (fst (prev (total_of p i)) * pf) +
                               binary64 (fst (new (total_of c i)) * nf))
      else if ch = 3 then 255
      else binary64 (binary64 (snd (prev (total_of p i)) * pf) +
                     binary64 (snd (new (total_of c i)) * nf)))"

section \<open>Doubles\<close>

text \<open>
  A number below \<open>2^k\<close> has at most \<open>k\<close> binary digits, an integer is rounded to itself,
  and a rounded number lies between the floor and the floor plus 1.
\<close>

lemma bitLength_le: "n < 2 ^ k \<Longrightarrow> bitLength n \<le> k"
proof (induction k arbitrary: n)
  case 0
  then have "n \<le> 0" by simp
  then show ?case by (subst bitLength.simps) simp
next
  case (Suc k)
  show ?case
  proof (cases "n \<le> 0")
    case True
    then show ?thesis by (subst bitLength.simps) simp
  next
    case False
    from Suc.prems have "n div 2 < 2 ^ k" by simp
    then have "bitLength (n div 2) \<le> k" by (rule Suc.IH)
    with False show ?thesis by (subst bitLength.simps) simp
  qed
qed

lemma roundTiesToEven_of_int: "roundTiesToEven (of_int n) = n"
  by (simp add: roundTiesToEven_def)

lemma roundTiesToEven_bounds: "\<lfloor>r\<rfloor> \<le> roundTiesToEven r \<and> roundTiesToEven r \<le> \<lfloor>r\<rfloor> + 1"
  by (simp add: roundTiesToEven_def Let_def)

text \<open>
  \<open>binary64\<close> leaves an integer multiple of \<open>1/1024\<close> with a numerator below \<open>2^53\<close> as it is,
  and maps the unit interval into itself.
\<close>

lemma exponent_le:
  assumes "\<bar>x\<bar> < 2 ^ 43"
  shows "exponent x \<le> 42"
proof (cases "1 \<le> \<bar>x\<bar>")
  case True
  from assms have "\<lfloor>\<bar>x\<bar>\<rfloor> < 2 ^ 43" by (simp add: floor_less_iff)
  then have "bitLength \<lfloor>\<bar>x\<bar>\<rfloor> \<le> 43" by (rule bitLength_le)
  with True show ?thesis by (simp add: exponent_def)
next
  case False
  then show ?thesis by (simp add: exponent_def)
qed

lemma binary64_exact:
  assumes "\<bar>m\<bar> < 2 ^ 53"
  shows "binary64 (of_int m / 1024) = of_int m / 1024"
proof (cases "m = 0")
  case True
  then show ?thesis by (simp add: binary64_def)
next
  case False
  let ?x = "of_int m / 1024 :: rat"
  have "\<bar>?x\<bar> = of_int \<bar>m\<bar> / 1024" by simp
  also have "\<dots> < of_int (2 ^ 53) / 1024"
    using assms by (intro divide_strict_right_mono) (simp_all del: of_int_abs of_int_power of_int_numeral)
  also have "\<dots> = 2 ^ 43" by simp
  finally have e: "exponent ?x \<le> 42" by (rule exponent_le)
  then have "10 \<le> nat (52 - exponent ?x)" by linarith
  then obtain k where k: "nat (52 - exponent ?x) = 10 + k"
    using le_Suc_ex by blast
  have x: "?x \<noteq> 0" using False by simp
  have "?x / (1 / 2 ^ (10 + k)) = of_int (m * 2 ^ k)"
    by (simp add: power_add)
  then have "of_int (roundTiesToEven (?x / (1 / 2 ^ (10 + k)))) * (1 / 2 ^ (10 + k)) = ?x"
    by (simp only: roundTiesToEven_of_int) (simp add: power_add)
  with e x k show ?thesis
    by (simp add: binary64_def Let_def)
qed

lemma binary64_unit:
  assumes "0 \<le> x" and "x \<le> 1"
  shows "0 \<le> binary64 x \<and> binary64 x \<le> 1"
proof -
  consider "x = 0" | "x = 1" | "0 < x" "x < 1" using assms by fastforce
  then show ?thesis
  proof cases
    case 1
    then show ?thesis by (simp add: binary64_def)
  next
    case 2
    have "binary64 (of_int 1024 / 1024) = of_int 1024 / 1024" by (rule binary64_exact) simp
    with 2 show ?thesis by simp
  next
    case 3
    then have e: "exponent x \<le> 0" by (simp add: exponent_def)
    define k where "k = nat (52 - exponent x)"
    let ?r = "x / (1 / 2 ^ k)"
    have r: "0 \<le> ?r" "?r < 2 ^ k" using 3 by simp_all
    then have "0 \<le> \<lfloor>?r\<rfloor>" "\<lfloor>?r\<rfloor> < 2 ^ k" by (simp_all add: floor_less_iff)
    with roundTiesToEven_bounds[of ?r]
    have "0 \<le> roundTiesToEven ?r" "roundTiesToEven ?r \<le> 2 ^ k" by linarith+
    then have "0 \<le> (of_int (roundTiesToEven ?r) :: rat)" "(of_int (roundTiesToEven ?r) :: rat) \<le> 2 ^ k"
      by (simp_all add: of_int_le_iff[where 'a=rat, of _ "2 ^ k", simplified])
    then have "0 \<le> of_int (roundTiesToEven ?r) * (1 / 2 ^ k :: rat)"
      "of_int (roundTiesToEven ?r) * (1 / 2 ^ k :: rat) \<le> 1"
      by (simp_all add: field_simps)
    moreover have "binary64 x = of_int (roundTiesToEven ?r) * (1 / 2 ^ k)"
      using 3 e by (simp add: binary64_def Let_def k_def)
    ultimately show ?thesis by simp
  qed
qed

text \<open>
  A total is a 16-bit number, the three copies of the conditional agree, and the two
  numbers they give for a total are doubles.
\<close>

lemma total_of_range: "0 \<le> total_of a i \<and> total_of a i < 65536"
proof -
  have o: "0 \<le> operand a k \<and> operand a k < 256" for k
    using uint_lt2p[of "a ! k"] by (simp add: operand_def)
  have 1: "0 \<le> push_bit 8 (operand a (i + 1))" using o[of "i + 1"] by simp
  have 2: "push_bit 8 (operand a (i + 1)) < 2 ^ 16"
    using o[of "i + 1"] by (simp add: push_bit_eq_mult)
  have 3: "operand a i < 2 ^ 16" using o[of i] by simp
  have "push_bit 8 (operand a (i + 1)) OR operand a i < 2 ^ 16"
    using 1 2 3 by (rule OR_upper)
  moreover have "0 \<le> push_bit 8 (operand a (i + 1)) OR operand a i"
    using o[of i] o[of "i + 1"] by simp
  ultimately show ?thesis by (simp add: total_of_def)
qed

lemma same_vals: "prev t = val t" "new t = val t"
  by (simp_all add: prev_def new_def val_def)

lemma val_exact:
  assumes "0 \<le> t" and "t < 65536"
  shows "binary64 (fst (val t)) = fst (val t)" and "binary64 (snd (val t)) = snd (val t)"
proof -
  have f: "fst (val t) = of_int (if t > 1024 then 0 else 261120 - 255 * t) / 1024"
    by (simp add: val_def BB_MathUtils_map_def field_simps)
  have s: "snd (val t) = of_int (if t > 1024 then 255 * (t - 1024) else 261120) / 1024"
    by (simp add: val_def BB_MathUtils_map_def field_simps)
  have "\<bar>if t > 1024 then 0 else 261120 - 255 * t\<bar> < 2 ^ 53" using assms by simp
  then show "binary64 (fst (val t)) = fst (val t)"
    unfolding f by (rule binary64_exact)
  have "\<bar>if t > 1024 then 255 * (t - 1024) else 261120\<bar> < 2 ^ 53" using assms by simp
  then show "binary64 (snd (val t)) = snd (val t)"
    unfolding s by (rule binary64_exact)
qed

lemma binary64_0: "binary64 0 = 0"
  by (simp add: binary64_def)

lemma binary64_1: "binary64 1 = 1"
  using binary64_exact[of 1024] by simp

lemma encoded_exact:
  "binary64 (fst (val (total_of a i))) = fst (val (total_of a i))"
  "binary64 (snd (val (total_of a i))) = snd (val (total_of a i))"
  using total_of_range[of a i] by (simp_all add: val_exact)

text \<open>
  With the weights 1 and 0 the blend is the encoding of the previous sample, and with 0
  and 1 that of the new sample.
\<close>

lemma blend_first: "blend p c 1 0 i ch = plain p i ch"
  by (simp add: blend_def plain_def same_vals binary64_0 encoded_exact)

lemma blend_last: "blend p c 0 1 i ch = plain c i ch"
  by (simp add: blend_def plain_def same_vals binary64_0 encoded_exact)

section \<open>The update loop and the tween loop\<close>

text \<open>
  One iteration, and the exit.
\<close>

lemma nth_pixel:
  assumes "ch < 4" and "j + ch < length data"
  shows "data[j := f 0, j + 1 := f 1, j + 2 := f 2, j + 3 := f (3::nat)] ! (j + ch) = f ch"
proof -
  from assms(1) consider "ch = 0" | "ch = 1" | "ch = 2" | "ch = 3" by linarith
  then show ?thesis using assms(2) by cases simp_all
qed

lemma updateLoop_step:
  "i < length d \<Longrightarrow>
   updateLoop d i j data =
   updateLoop d (i + 2) (j + 4)
     (data[j := plain d i 0, j + 1 := plain d i 1, j + 2 := plain d i 2, j + 3 := plain d i 3])"
  by (subst updateLoop.simps) (simp add: plain_def)

lemma updateLoop_stop: "\<not> i < length d \<Longrightarrow> updateLoop d i j data = data"
  by (subst updateLoop.simps) simp

lemma tweenLoop_step:
  "i < length p \<Longrightarrow>
   tweenLoop p (Uint8Array c) pf nf i j data =
   tweenLoop p (Uint8Array c) pf nf (i + 2) (j + 4)
     (data[j := blend p c pf nf i 0, j + 1 := blend p c pf nf i 1,
           j + 2 := blend p c pf nf i 2, j + 3 := blend p c pf nf i 3])"
  by (subst tweenLoop.simps) (simp add: blend_def)

lemma tweenLoop_stop: "\<not> i < length p \<Longrightarrow> tweenLoop p nd pf nf i j data = Inr data"
  by (subst tweenLoop.simps) simp

text \<open>
  What the update loop leaves at each index: the length is kept, entries before the write
  index are kept, and channel \<open>ch\<close> of the \<open>m\<close>-th pixel from the write index holds the
  encoding when the loop reaches it.
\<close>

lemma updateLoop_length: "length (updateLoop d i j data) = length data"
proof (induction d i j data rule: updateLoop.induct)
  case (1 d i j data)
  show ?case
  proof (cases "i < length d")
    case True
    with "1.IH" show ?thesis by (simp add: updateLoop_step plain_def)
  next
    case False
    then show ?thesis by (simp add: updateLoop_stop)
  qed
qed

lemma updateLoop_below: "idx < j \<Longrightarrow> updateLoop d i j data ! idx = data ! idx"
proof (induction d i j data rule: updateLoop.induct)
  case (1 d i j data)
  show ?case
  proof (cases "i < length d")
    case True
    with "1.IH" "1.prems" show ?thesis by (simp add: updateLoop_step plain_def)
  next
    case False
    then show ?thesis by (simp add: updateLoop_stop)
  qed
qed

lemma updateLoop_nth:
  "ch < 4 \<Longrightarrow> j + 4 * m + ch < length data \<Longrightarrow>
   updateLoop d i j data ! (j + 4 * m + ch) =
     (if i + 2 * m < length d then plain d (i + 2 * m) ch else data ! (j + 4 * m + ch))"
proof (induction d i j data arbitrary: m rule: updateLoop.induct)
  case (1 d i j data)
  show ?case
  proof (cases "i < length d")
    case False
    then show ?thesis by (simp add: updateLoop_stop)
  next
    case True
    let ?d = "data[j := plain d i 0, j + 1 := plain d i 1, j + 2 := plain d i 2, j + 3 := plain d i 3]"
    have step: "updateLoop d i j data = updateLoop d (i + 2) (j + 4) ?d"
      using True by (rule updateLoop_step)
    show ?thesis
    proof (cases m)
      case 0
      have "updateLoop d (i + 2) (j + 4) ?d ! (j + ch) = ?d ! (j + ch)"
        using "1.prems" by (intro updateLoop_below) simp
      moreover have "?d ! (j + ch) = plain d i ch"
        using "1.prems" 0 by (intro nth_pixel) simp_all
      ultimately show ?thesis using True 0 step by simp
    next
      case (Suc m')
      have "?d = data[j := fst (val (total_of d i)), j + 1 := snd (val (total_of d i)),
                      j + 2 := snd (val (total_of d i)), j + 3 := 255]"
        by (simp add: plain_def)
      moreover have "j + 4 + 4 * m' + ch < length ?d" using "1.prems" Suc by simp
      ultimately have "updateLoop d (i + 2) (j + 4) ?d ! (j + 4 + 4 * m' + ch) =
            (if i + 2 + 2 * m' < length d then plain d (i + 2 + 2 * m') ch
             else ?d ! (j + 4 + 4 * m' + ch))"
        using "1.IH"[OF True "1.prems"(1), of m'] by simp
      then show ?thesis using True Suc step by (simp add: add.assoc)
    qed
  qed
qed

lemma updateLoop_nth0:
  assumes "idx < length data"
  shows "updateLoop d 0 0 data ! idx =
     (if 2 * (idx div 4) < length d then plain d (2 * (idx div 4)) (idx mod 4) else data ! idx)"
proof -
  have "updateLoop d 0 0 data ! (0 + 4 * (idx div 4) + idx mod 4) =
     (if 0 + 2 * (idx div 4) < length d then plain d (0 + 2 * (idx div 4)) (idx mod 4)
      else data ! (0 + 4 * (idx div 4) + idx mod 4))"
    using assms by (intro updateLoop_nth) simp_all
  then show ?thesis by simp
qed

lemma updateLoop_pixel:
  assumes "ch < 4" "4 * m + ch < length data" "2 * m < length d"
  shows "updateLoop d 0 0 data ! (4 * m + ch) = plain d (2 * m) ch"
  using assms by (simp add: updateLoop_nth0)

text \<open>
  The same for the tween loop, which never throws when the new frame is an array.
\<close>

lemma tweenLoop_Inr: "\<exists>d. tweenLoop p (Uint8Array c) pf nf i j data = Inr d \<and> length d = length data"
proof (induction p "Uint8Array c" pf nf i j data rule: tweenLoop.induct)
  case (1 p pf nf i j data)
  show ?case
  proof (cases "i < length p")
    case True
    from "1"[OF True refl] show ?thesis by (simp add: tweenLoop_step[OF True] blend_def)
  next
    case False
    then show ?thesis by (simp add: tweenLoop_stop)
  qed
qed

lemma tweenLoop_eq:
  "tweenLoop p (Uint8Array c) pf nf i j data = Inr (projr (tweenLoop p (Uint8Array c) pf nf i j data))"
  using tweenLoop_Inr[of p c pf nf i j data] by auto

lemma tweenLoop_length: "length (projr (tweenLoop p (Uint8Array c) pf nf i j data)) = length data"
  using tweenLoop_Inr[of p c pf nf i j data] by auto

lemma tweenLoop_below:
  "idx < j \<Longrightarrow> projr (tweenLoop p (Uint8Array c) pf nf i j data) ! idx = data ! idx"
proof (induction p "Uint8Array c" pf nf i j data rule: tweenLoop.induct)
  case (1 p pf nf i j data)
  show ?case
  proof (cases "i < length p")
    case True
    from "1.hyps"[OF True refl] "1.prems" show ?thesis
      by (simp add: tweenLoop_step[OF True] blend_def)
  next
    case False
    then show ?thesis by (simp add: tweenLoop_stop)
  qed
qed

lemma tweenLoop_nth:
  "ch < 4 \<Longrightarrow> j + 4 * m + ch < length data \<Longrightarrow>
   projr (tweenLoop p (Uint8Array c) pf nf i j data) ! (j + 4 * m + ch) =
     (if i + 2 * m < length p then blend p c pf nf (i + 2 * m) ch else data ! (j + 4 * m + ch))"
proof (induction p "Uint8Array c" pf nf i j data arbitrary: m rule: tweenLoop.induct)
  case (1 p pf nf i j data)
  show ?case
  proof (cases "i < length p")
    case False
    then show ?thesis by (simp add: tweenLoop_stop)
  next
    case True
    let ?d = "data[j := blend p c pf nf i 0, j + 1 := blend p c pf nf i 1,
                   j + 2 := blend p c pf nf i 2, j + 3 := blend p c pf nf i 3]"
    have step: "tweenLoop p (Uint8Array c) pf nf i j data =
                tweenLoop p (Uint8Array c) pf nf (i + 2) (j + 4) ?d"
      using True by (rule tweenLoop_step)
    show ?thesis
    proof (cases m)
      case 0
      have "projr (tweenLoop p (Uint8Array c) pf nf (i + 2) (j + 4) ?d) ! (j + ch) = ?d ! (j + ch)"
        using "1.prems" by (intro tweenLoop_below) simp
      moreover have "?d ! (j + ch) = blend p c pf nf i ch"
        using "1.prems" 0 by (intro nth_pixel) simp_all
      ultimately show ?thesis using True 0 step by simp
    next
      case (Suc m')
      have "?d = data[j := binary64 (binary64 (fst (prev (total_of p i)) * pf) +
                                     binary64 (fst (new (total_of c i)) * nf)),
                      j + 1 := binary64 (binary64 (snd (prev (total_of p i)) * pf) +
                                         binary64 (snd (new (total_of c i)) * nf)),
                      j + 2 := binary64 (binary64 (snd (prev (total_of p i)) * pf) +
                                         binary64 (snd (new (total_of c i)) * nf)),
                      j + 3 := 255]"
        by (simp add: blend_def)
      moreover have "j + 4 + 4 * m' + ch < length ?d" using "1.prems" Suc by simp
      ultimately have "projr (tweenLoop p (Uint8Array c) pf nf (i + 2) (j + 4) ?d) ! (j + 4 + 4 * m' + ch) =
            (if i + 2 + 2 * m' < length p then blend p c pf nf (i + 2 + 2 * m') ch
             else ?d ! (j + 4 + 4 * m' + ch))"
        using "1.hyps"[OF True refl "1.prems"(1), of m'] by simp
      then show ?thesis using True Suc step by (simp add: add.assoc)
    qed
  qed
qed

lemma tweenLoop_nth0:
  assumes "idx < length data"
  shows "projr (tweenLoop p (Uint8Array c) pf nf 0 0 data) ! idx =
     (if 2 * (idx div 4) < length p then blend p c pf nf (2 * (idx div 4)) (idx mod 4) else data ! idx)"
proof -
  have "projr (tweenLoop p (Uint8Array c) pf nf 0 0 data) ! (0 + 4 * (idx div 4) + idx mod 4) =
     (if 0 + 2 * (idx div 4) < length p then blend p c pf nf (0 + 2 * (idx div 4)) (idx mod 4)
      else data ! (0 + 4 * (idx div 4) + idx mod 4))"
    using assms by (intro tweenLoop_nth) simp_all
  then show ?thesis by simp
qed

text \<open>
  At the weights 1 and 0 the tween loop is the update loop on the previous frame, and at
  0 and 1 it is the update loop on the new frame. The update loop overwrites what an
  earlier loop over a frame of the same length has written.
\<close>

lemma tween_first_step:
  "tweenLoop p (Uint8Array c) 1 0 0 0 data = Inr (updateLoop p 0 0 data)"
proof -
  have "projr (tweenLoop p (Uint8Array c) 1 0 0 0 data) = updateLoop p 0 0 data"
    by (rule nth_equalityI)
       (simp_all add: tweenLoop_length updateLoop_length tweenLoop_nth0 updateLoop_nth0 blend_first)
  then show ?thesis using tweenLoop_eq[of p c 1 0 0 0 data] by simp
qed




text \<open>
  Bytes that are not there read as 0.
\<close>

lemma operand_uint: "i < length a \<Longrightarrow> operand a i = uint (a ! i)"
  by (simp add: operand_def)

lemma operand_append_zero: "operand (a @ [0]) k = operand a k"
  by (simp add: operand_def nth_append)

lemma updateLoop_append_zero:
  "even i \<Longrightarrow> odd (length d) \<Longrightarrow> updateLoop (d @ [0]) i j data = updateLoop d i j data"
proof (induction d i j data rule: updateLoop.induct)
  case (1 d i j data)
  have t: "total_of (d @ [0]) i = total_of d i"
    by (simp add: total_of_def operand_append_zero)
  show ?case
  proof (cases "i < length d")
    case True
    then have l: "i < length (d @ [0])" by simp
    from "1.IH"[OF True] "1.prems" show ?thesis
      by (simp add: updateLoop_step[OF True] updateLoop_step[OF l] plain_def t)
  next
    case False
    with "1.prems" have "\<not> i < length (d @ [0])"
      by (metis False length_append_singleton less_Suc_eq)
    with False show ?thesis by (simp add: updateLoop_stop)
  qed
qed

lemma tweenLoop_cong:
  "(\<And>k. k \<le> length p \<Longrightarrow> operand c k = operand c' k) \<Longrightarrow>
   tweenLoop p (Uint8Array c) pf nf i j data = tweenLoop p (Uint8Array c') pf nf i j data"
proof (induction p "Uint8Array c" pf nf i j data rule: tweenLoop.induct)
  case (1 p pf nf i j data)
  show ?case
  proof (cases "i < length p")
    case True
    have "total_of c i = total_of c' i"
      using True "1.prems" by (simp add: total_of_def)
    with "1.hyps"[OF True refl] "1.prems" show ?thesis
      by (simp add: tweenLoop_step[OF True] blend_def)
  next
    case False
    then show ?thesis by (simp add: tweenLoop_stop)
  qed
qed

lemma operand_fit:
  assumes "k < n"
  shows "operand (take n (c @ replicate n 0)) k = operand c k"
proof -
  have l: "k < length (take n (c @ replicate n 0))" using assms by simp
  have "take n (c @ replicate n 0) ! k = (c @ replicate n 0) ! k"
    using assms by (rule nth_take)
  also have "\<dots> = (if k < length c then c ! k else 0)"
    using assms by (simp add: nth_append)
  finally have "uint (take n (c @ replicate n 0) ! k) = (if k < length c then uint (c ! k) else 0)"
    by simp
  with l show ?thesis unfolding operand_def by (simp only: if_True)
qed

section \<open>Calls of tweenCanvasData\<close>

text \<open>
  The weights at the first and at the last step, and their range.
\<close>

lemma fade_first: "newFade 0 = 0" "prevFade 0 = 1"
  by (simp_all add: newFade_def prevFade_def binary64_0 binary64_1)

lemma fade_last: "newFade 25 = 1" "prevFade 25 = 0"
  by (simp_all add: newFade_def prevFade_def steps_def binary64_0 binary64_1)

lemma fade_unit:
  assumes "0 \<le> cnt" and "cnt \<le> steps"
  shows "0 \<le> newFade cnt \<and> newFade cnt \<le> 1 \<and> 0 \<le> prevFade cnt \<and> prevFade cnt \<le> 1"
proof -
  have q: "0 \<le> (of_int cnt / of_int steps :: rat)" "(of_int cnt / of_int steps :: rat) \<le> 1"
    using assms by (simp_all add: steps_def)
  then have n: "0 \<le> binary64 (of_int cnt / of_int steps) \<and> binary64 (of_int cnt / of_int steps) \<le> 1"
    by (rule binary64_unit)
  then have "0 \<le> 1 - binary64 (of_int cnt / of_int steps)" "1 - binary64 (of_int cnt / of_int steps) \<le> 1"
    by simp_all
  then have "0 \<le> binary64 (1 - binary64 (of_int cnt / of_int steps)) \<and>
             binary64 (1 - binary64 (of_int cnt / of_int steps)) \<le> 1"
    by (rule binary64_unit)
  with n show ?thesis by (simp add: newFade_def prevFade_def)
qed

text \<open>
  The self-call is one unfolding, and what a call leaves in the fields.
\<close>

lemma tweenCanvasData_unfold:
  "tweenCanvasData depth s =
     tweenElse depth (if newCanvasData s = Null then s\<lparr>newCanvasData := argument depth\<rparr> else s)"
proof (cases "newCanvasData s = Null")
  case True
  have "argument depth \<noteq> Null" by (simp add: argument_def split: option.splits)
  then have "tweenCanvasData depth (s\<lparr>newCanvasData := argument depth\<rparr>) = tweenElse depth (s\<lparr>newCanvasData := argument depth\<rparr>)"
    by (subst tweenCanvasData.simps) simp
  with True show ?thesis by (subst tweenCanvasData.simps) simp
next
  case False
  then show ?thesis by (subst tweenCanvasData.simps) simp
qed

lemma tweenElse_Inr:
  assumes "tweenElse depth s = Inr s'"
  shows "\<exists>p. prevCanvasData s' = Uint8Array p \<and>
             tweenLoop p (newCanvasData s') (prevFade (fadeCnt s)) (newFade (fadeCnt s)) 0 0 (imageData s) = Inr (imageData s')"
    and "fadeCnt s' = (if fadeCnt s + 1 > steps then 0 else fadeCnt s + 1)"
    and "prevCanvasData s' = (if fadeCnt s = 0 then newCanvasData s else prevCanvasData s)"
    and "newCanvasData s' = (if fadeCnt s = 0 then argument depth else newCanvasData s)"
  using assms
  by (auto simp: tweenElse_def Let_def split: depthData.splits sum.splits if_splits prod.splits)

lemma tweenElse_Inl:
  assumes "tweenElse depth s = Inl (e, s')"
  shows "fadeCnt s' = fadeCnt s"
    and "prevCanvasData s' = (if fadeCnt s = 0 then newCanvasData s else prevCanvasData s)"
    and "newCanvasData s' = (if fadeCnt s = 0 then argument depth else newCanvasData s)"
  using assms
  by (auto simp: tweenElse_def Let_def split: depthData.splits sum.splits if_splits prod.splits)

lemma argument_not_Null: "argument depth \<noteq> Null"
  by (simp add: argument_def split: option.splits)

lemma tweenCanvasData_Inr:
  assumes "tweenCanvasData depth s = Inr s'"
  shows "fadeCnt s' = (if fadeCnt s + 1 > steps then 0 else fadeCnt s + 1)"
    and "newCanvasData s' \<noteq> Null"
  using assms tweenElse_Inr(2,4)[of depth "if newCanvasData s = Null then s\<lparr>newCanvasData := argument depth\<rparr> else s" s']
  by (auto simp: tweenCanvasData_unfold argument_not_Null split: if_splits)

lemma tweenCanvasData_Inl:
  assumes "tweenCanvasData depth s = Inl (e, s')"
  shows "fadeCnt s' = fadeCnt s" and "newCanvasData s' \<noteq> Null"
  using assms tweenElse_Inl(1,3)[of depth "if newCanvasData s = Null then s\<lparr>newCanvasData := argument depth\<rparr> else s" e s']
  by (auto simp: tweenCanvasData_unfold argument_not_Null split: if_splits)

text \<open>
  The three ways a call can go well: between two frames of a running fade, with a frame
  at step 0, and with the very first frame.
\<close>

lemma tick_mid:
  assumes "fadeCnt s \<noteq> 0" "prevCanvasData s = Uint8Array p" "newCanvasData s = Uint8Array c"
  shows "tweenCanvasData depth s =
     Inr (s\<lparr>imageData := projr (tweenLoop p (Uint8Array c) (prevFade (fadeCnt s))
                                (newFade (fadeCnt s)) 0 0 (imageData s)),
            fadeCnt := (if fadeCnt s + 1 > steps then 0 else fadeCnt s + 1)\<rparr>)"
proof -
  obtain d where "tweenLoop p (Uint8Array c) (prevFade (fadeCnt s))
                                (newFade (fadeCnt s)) 0 0 (imageData s) = Inr d"
    using tweenLoop_Inr by blast
  with assms show ?thesis
    by (simp add: tweenCanvasData_unfold tweenElse_def Let_def)
qed


lemma first_call:
  assumes "fadeCnt s = 0" "newCanvasData s = Null"
  shows "tweenCanvasData (Some d) s =
     Inr (s\<lparr>prevCanvasData := Uint8Array d, newCanvasData := Uint8Array d,
            imageData := updateLoop d 0 0 (imageData s),
            fadeCnt := 1\<rparr>)"
  using assms
  by (simp add: tweenCanvasData_unfold tweenElse_def Let_def argument_def steps_def
        fade_first tween_first_step)


text \<open>
  Invariants of reachable objects.
\<close>

lemma reachable_fadeCnt: "reachable s \<Longrightarrow> 0 \<le> fadeCnt s \<and> fadeCnt s \<le> steps"
proof (induction rule: reachable.induct)
  case (constructed initDepth s)
  then show ?case
    by (cases initDepth) (auto simp: constructor_def steps_def dest!: tweenCanvasData_Inr(1))
next
  case (updated s depth)
  then show ?case by (simp add: updateCanvasData_def)
next
  case (tweened s depth s')
  then show ?case using tweenCanvasData_Inr(1)[of depth s s'] by (auto simp: steps_def split: if_splits)
next
  case (thrown s depth e s')
  then show ?case using tweenCanvasData_Inl(1)[of depth s e s'] by simp
qed


text \<open>
  Unfolding rules for evaluating the methods on concrete objects.
\<close>

lemmas eval_defs = tweenCanvasData.simps tweenElse_def tweenLoop.simps updateCanvasData_def
  updateLoop.simps steps_def total_of_def operand_def prev_def new_def val_def
  BB_MathUtils_map_def argument_def

section \<open>The claims\<close>

text \<open>
  C1. The encoding of one sample by \<^verbatim>\<open>updateCanvasData\<close>. For a sample with both bytes in
  the frame and its pixel in the array, with \<open>t = (high << 8) | low\<close>: the R entry is
  \<open>map(t, 0, 1024, 255, 0)\<close> when \<open>t \<le> 1024\<close> and 0 otherwise, the G and B entries are 255
  when \<open>t \<le> 1024\<close> and \<open>map(2048 - t, 0, 1024, 255, 0)\<close> otherwise, and the A entry is 255.
  The two copies of the conditional in \<^verbatim>\<open>tweenCanvasData\<close> give the same pair. \<open>map\<close> is the
  unclamped linear remap, and the sample with both bytes 0 is encoded as (255, 255).
\<close>

theorem encoder_channels:
  assumes "2 * m + 1 < length depth" and "4 * m + 3 < length (imageData s)"
  shows "let t = push_bit 8 (uint (depth ! (2 * m + 1))) OR uint (depth ! (2 * m));
             low = (if t \<le> 1024 then BB_MathUtils_map (of_int t) 0 1024 255 0 else 0);
             high = (if t \<le> 1024 then 255 else BB_MathUtils_map (of_int (2048 - t)) 0 1024 255 0)
         in imageData (updateCanvasData depth s) ! (4 * m) = low \<and>
            imageData (updateCanvasData depth s) ! (4 * m + 1) = high \<and>
            imageData (updateCanvasData depth s) ! (4 * m + 2) = high \<and>
            imageData (updateCanvasData depth s) ! (4 * m + 3) = 255 \<and>
            prev t = (low, high) \<and> new t = (low, high) \<and>
            (\<forall>v a b c d. BB_MathUtils_map v a b c d = c + (v - a) * (d - c) / (b - a)) \<and>
            val (push_bit 8 (uint (0 :: byte)) OR uint (0 :: byte)) = (255, 255)"
proof -
  have t: "total_of depth (2 * m) = push_bit 8 (uint (depth ! (2 * m + 1))) OR uint (depth ! (2 * m))"
    using assms(1) by (simp add: total_of_def operand_uint)
  have p: "imageData (updateCanvasData depth s) ! (4 * m + ch) = plain depth (2 * m) ch"
    if "ch < 4" for ch
    using that assms by (simp add: updateCanvasData_def updateLoop_pixel)
  have "imageData (updateCanvasData depth s) ! (4 * m) = plain depth (2 * m) 0"
    using p[of 0] by simp
  moreover note p[of 1] p[of 2] p[of 3]
  moreover have "val (push_bit 8 (uint (0 :: byte)) OR uint (0 :: byte)) = (255, 255)"
    by (simp add: val_def BB_MathUtils_map_def)
  ultimately show ?thesis
    by (simp add: Let_def plain_def t val_def prev_def new_def BB_MathUtils_map_def)
qed

text \<open>
  C1, at a concrete input: the frame with the single sample 1025 (bytes 1 and 4) and an
  array of one pixel.
\<close>

theorem encoder_channels_witness:
  "2 * 0 + 1 < length [1, 4 :: byte] \<and>
   4 * 0 + 3 < length (imageData \<lparr>imageData = [0, 0, 0, 0], prevCanvasData = Null, newCanvasData = Null, fadeCnt = 0\<rparr>) \<and>
   imageData (updateCanvasData [1, 4] \<lparr>imageData = [0, 0, 0, 0], prevCanvasData = Null, newCanvasData = Null, fadeCnt = 0\<rparr>)
     = [0, 255 / 1024, 255 / 1024, 255]"
  using encoder_channels[of 0 "[1, 4]" "\<lparr>imageData = [0, 0, 0, 0], prevCanvasData = Null, newCanvasData = Null, fadeCnt = 0\<rparr>"]
  by (simp add: eval_defs)

text \<open>
  C2 as the source has it. While a fade is running (\<open>fadeCnt \<noteq> 0\<close>, both frames present) a call
  with a new frame does not store the frame: it is the same as the call without argument.
  It succeeds, both frames stay as they were, and the step counter advances as on any
  other call, by one, or back to 0 from 25.
\<close>

theorem midfade_submit_ignored:
  assumes "fadeCnt s \<noteq> 0"
    and "prevCanvasData s = Uint8Array p" and "newCanvasData s = Uint8Array c"
  shows "tweenCanvasData (Some d) s = tweenCanvasData None s \<and>
         (\<exists>s'. tweenCanvasData (Some d) s = Inr s' \<and>
            newCanvasData s' = Uint8Array c \<and> prevCanvasData s' = Uint8Array p \<and>
            fadeCnt s' = (if fadeCnt s + 1 > steps then 0 else fadeCnt s + 1))"
  using assms by (simp add: tick_mid[of s p c])

text \<open>
  C2 as the source has it, at a concrete input: step 25 of a fade from sample 0 to sample
  1024, and a call with the frame of sample 1.
\<close>

theorem midfade_submit_ignored_witness:
  "fadeCnt \<lparr>imageData = [0, 0, 0, 0], prevCanvasData = Uint8Array [0, 0],
      newCanvasData = Uint8Array [0, 4], fadeCnt = 25\<rparr> \<noteq> 0 \<and>
   tweenCanvasData (Some [1, 0]) \<lparr>imageData = [0, 0, 0, 0], prevCanvasData = Uint8Array [0, 0],
      newCanvasData = Uint8Array [0, 4], fadeCnt = 25\<rparr> =
   tweenCanvasData None \<lparr>imageData = [0, 0, 0, 0], prevCanvasData = Uint8Array [0, 0],
      newCanvasData = Uint8Array [0, 4], fadeCnt = 25\<rparr> \<and>
   tweenCanvasData (Some [1, 0]) \<lparr>imageData = [0, 0, 0, 0], prevCanvasData = Uint8Array [0, 0],
      newCanvasData = Uint8Array [0, 4], fadeCnt = 25\<rparr> =
   Inr \<lparr>imageData = [0, 255, 255, 255], prevCanvasData = Uint8Array [0, 0],
      newCanvasData = Uint8Array [0, 4], fadeCnt = 0\<rparr>"
proof -
  have e: "tweenCanvasData (Some [1, 0]) \<lparr>imageData = [0, 0, 0, 0], prevCanvasData = Uint8Array [0, 0],
      newCanvasData = Uint8Array [0, 4], fadeCnt = 25\<rparr> =
   Inr \<lparr>imageData = [0, 255, 255, 255], prevCanvasData = Uint8Array [0, 0],
      newCanvasData = Uint8Array [0, 4], fadeCnt = 0\<rparr>"
    by code_simp
  from midfade_submit_ignored[of "\<lparr>imageData = [0, 0, 0, 0], prevCanvasData = Uint8Array [0, 0],
      newCanvasData = Uint8Array [0, 4], fadeCnt = 25\<rparr>" "[0, 0]" "[0, 4]" "[1, 0]"] e
  show ?thesis by simp
qed

text \<open>
  C2 as stated fails: at step 3 of a fade from sample 0 to sample 1024, a call with the
  frame of bytes 1, 0 leaves the new frame at bytes 0, 4. The R entry is the double
  224.4.
\<close>

theorem midfade_submit_not_stored:
  "tweenCanvasData (Some [1, 0])
     \<lparr>imageData = [0, 0, 0, 0], prevCanvasData = Uint8Array [0, 0],
      newCanvasData = Uint8Array [0, 4], fadeCnt = 3\<rparr> =
   Inr \<lparr>imageData = [7895373096733901 / 35184372088832, 255, 255, 255],
        prevCanvasData = Uint8Array [0, 0],
        newCanvasData = Uint8Array [0, 4], fadeCnt = 4\<rparr> \<and>
   Uint8Array [0, 4] \<noteq> Uint8Array [1, 0]"
  by code_simp



text \<open>
  C4 as the source has it. Take a call that returns, at step \<open>k = fadeCnt s\<close> before the call,
  and let \<open>p\<close> and \<open>c\<close> be the previous and the new frame it leaves, which are the frames its
  loop has read (the call sets them before the loop, and only at step 0). For every
  sample that both frames have and whose pixel is in the array, with the encodings
  \<open>(lowp, highp)\<close> and \<open>(lowc, highc)\<close> of the two samples written out as in C1: each of the
  entries R, G, B is the previous channel times \<open>1 - k/25\<close> plus the new channel times
  \<open>k/25\<close> as double arithmetic computes it, with the quotient, the difference, the two
  products and the sum each rounded to the nearest double. At step 0 that is the
  previous channel and at step 25 it is the new channel. The entry A is 255.
\<close>

theorem blend_channels:
  assumes "tweenCanvasData depth s = Inr s'"
    and "prevCanvasData s' = Uint8Array p" and "newCanvasData s' = Uint8Array c"
    and "2 * m + 1 < length p" and "2 * m + 1 < length c"
    and "4 * m + 3 < length (imageData s)"
  shows "let tp = push_bit 8 (uint (p ! (2 * m + 1))) OR uint (p ! (2 * m));
             tc = push_bit 8 (uint (c ! (2 * m + 1))) OR uint (c ! (2 * m));
             lowp = (if tp \<le> 1024 then BB_MathUtils_map (of_int tp) 0 1024 255 0 else 0);
             highp = (if tp \<le> 1024 then 255 else BB_MathUtils_map (of_int (2048 - tp)) 0 1024 255 0);
             lowc = (if tc \<le> 1024 then BB_MathUtils_map (of_int tc) 0 1024 255 0 else 0);
             highc = (if tc \<le> 1024 then 255 else BB_MathUtils_map (of_int (2048 - tc)) 0 1024 255 0);
             w = binary64 (of_int (fadeCnt s) / of_int steps);
             v = binary64 (1 - binary64 (of_int (fadeCnt s) / of_int steps))
         in imageData s' ! (4 * m) = binary64 (binary64 (lowp * v) + binary64 (lowc * w)) \<and>
            imageData s' ! (4 * m + 1) = binary64 (binary64 (highp * v) + binary64 (highc * w)) \<and>
            imageData s' ! (4 * m + 2) = binary64 (binary64 (highp * v) + binary64 (highc * w)) \<and>
            imageData s' ! (4 * m + 3) = 255 \<and>
            (fadeCnt s = 0 \<longrightarrow>
               imageData s' ! (4 * m) = lowp \<and> imageData s' ! (4 * m + 1) = highp \<and>
               imageData s' ! (4 * m + 2) = highp) \<and>
            (fadeCnt s = steps \<longrightarrow>
               imageData s' ! (4 * m) = lowc \<and> imageData s' ! (4 * m + 1) = highc \<and>
               imageData s' ! (4 * m + 2) = highc)"
proof -
  define tp where "tp = push_bit 8 (uint (p ! (2 * m + 1))) OR uint (p ! (2 * m))"
  define tc where "tc = push_bit 8 (uint (c ! (2 * m + 1))) OR uint (c ! (2 * m))"
  define lowp where "lowp = (if tp \<le> 1024 then BB_MathUtils_map (of_int tp) 0 1024 255 0 else 0)"
  define highp
    where "highp = (if tp \<le> 1024 then 255 else BB_MathUtils_map (of_int (2048 - tp)) 0 1024 255 0)"
  define lowc where "lowc = (if tc \<le> 1024 then BB_MathUtils_map (of_int tc) 0 1024 255 0 else 0)"
  define highc
    where "highc = (if tc \<le> 1024 then 255 else BB_MathUtils_map (of_int (2048 - tc)) 0 1024 255 0)"
  define w where "w = binary64 (of_int (fadeCnt s) / of_int steps)"
  define v where "v = binary64 (1 - binary64 (of_int (fadeCnt s) / of_int steps))"
  let ?s0 = "if newCanvasData s = Null then s\<lparr>newCanvasData := argument depth\<rparr> else s"
  have "total_of p (2 * m) = tp"
    using assms(4) by (simp add: total_of_def operand_uint tp_def)
  then have vp: "prev (total_of p (2 * m)) = (lowp, highp)" "val (total_of p (2 * m)) = (lowp, highp)"
    by (simp_all add: prev_def val_def lowp_def highp_def)
  have "total_of c (2 * m) = tc"
    using assms(5) by (simp add: total_of_def operand_uint tc_def)
  then have vc: "new (total_of c (2 * m)) = (lowc, highc)" "val (total_of c (2 * m)) = (lowc, highc)"
    by (simp_all add: new_def val_def lowc_def highc_def)
  have wv: "newFade (fadeCnt s) = w" "prevFade (fadeCnt s) = v"
    by (simp_all add: newFade_def prevFade_def w_def v_def)
  have e: "tweenElse depth ?s0 = Inr s'" using assms(1) by (simp add: tweenCanvasData_unfold)
  from tweenElse_Inr(1)[OF e] assms(2,3)
  have l: "tweenLoop p (Uint8Array c) v w 0 0 (imageData s) = Inr (imageData s')"
    by (auto simp: wv split: if_splits)
  have n: "imageData s' ! (4 * m + ch) = blend p c v w (2 * m) ch" if "ch < 4" for ch
  proof -
    have "projr (tweenLoop p (Uint8Array c) v w 0 0 (imageData s)) ! (0 + 4 * m + ch) =
      (if 0 + 2 * m < length p then blend p c v w (0 + 2 * m) ch
       else imageData s ! (0 + 4 * m + ch))"
      using that assms(6) by (intro tweenLoop_nth) simp_all
    then show ?thesis using assms(4) l by simp
  qed
  have R: "imageData s' ! (4 * m) = blend p c v w (2 * m) 0" using n[of 0] by simp
  note G = n[of 1] and B = n[of 2] and A = n[of 3]
  have main: "imageData s' ! (4 * m) = binary64 (binary64 (lowp * v) + binary64 (lowc * w))"
    "imageData s' ! (4 * m + 1) = binary64 (binary64 (highp * v) + binary64 (highc * w))"
    "imageData s' ! (4 * m + 2) = binary64 (binary64 (highp * v) + binary64 (highc * w))"
    "imageData s' ! (4 * m + 3) = 255"
    using R G B A by (simp_all add: blend_def vp vc)
  have zero: "imageData s' ! (4 * m) = lowp \<and> imageData s' ! (4 * m + 1) = highp \<and>
              imageData s' ! (4 * m + 2) = highp" if "fadeCnt s = 0"
  proof -
    from that wv have "v = 1" "w = 0" by (simp_all add: fade_first)
    then show ?thesis using R G B by (simp add: blend_first plain_def vp)
  qed
  have full: "imageData s' ! (4 * m) = lowc \<and> imageData s' ! (4 * m + 1) = highc \<and>
              imageData s' ! (4 * m + 2) = highc" if "fadeCnt s = steps"
  proof -
    from that wv have "v = 0" "w = 1" by (simp_all add: steps_def fade_last)
    then show ?thesis using R G B by (simp add: blend_last plain_def vc)
  qed
  have all: "imageData s' ! (4 * m) = binary64 (binary64 (lowp * v) + binary64 (lowc * w)) \<and>
            imageData s' ! (4 * m + 1) = binary64 (binary64 (highp * v) + binary64 (highc * w)) \<and>
            imageData s' ! (4 * m + 2) = binary64 (binary64 (highp * v) + binary64 (highc * w)) \<and>
            imageData s' ! (4 * m + 3) = 255 \<and>
            (fadeCnt s = 0 \<longrightarrow>
               imageData s' ! (4 * m) = lowp \<and> imageData s' ! (4 * m + 1) = highp \<and>
               imageData s' ! (4 * m + 2) = highp) \<and>
            (fadeCnt s = steps \<longrightarrow>
               imageData s' ! (4 * m) = lowc \<and> imageData s' ! (4 * m + 1) = highc \<and>
               imageData s' ! (4 * m + 2) = highc)"
    using main zero full by blast
  show ?thesis
    unfolding Let_def
    by (rule all[unfolded lowp_def highp_def lowc_def highc_def tp_def tc_def w_def v_def])
qed

text \<open>
  C4 as the source has it, at a concrete input: step 10 of a fade from sample 0, encoded
  (255, 255), to sample 1024, encoded (0, 255).
\<close>

theorem blend_channels_witness:
  "tweenCanvasData None
     \<lparr>imageData = [0, 0, 0, 0], prevCanvasData = Uint8Array [0, 0],
      newCanvasData = Uint8Array [0, 4], fadeCnt = 10\<rparr> =
   Inr \<lparr>imageData = [153, 255, 255, 255], prevCanvasData = Uint8Array [0, 0],
        newCanvasData = Uint8Array [0, 4], fadeCnt = 11\<rparr> \<and>
   2 * 0 + 1 < length [0, 0 :: byte] \<and> 2 * 0 + 1 < length [0, 4 :: byte] \<and>
   4 * 0 + 3 < length [0, 0, 0, 0 :: rat] \<and>
   binary64 (binary64 (255 * binary64 (1 - binary64 (10 / 25))) + binary64 (0 * binary64 (10 / 25))) = 153 \<and>
   binary64 (binary64 (255 * binary64 (1 - binary64 (10 / 25))) + binary64 (255 * binary64 (10 / 25))) = 255"
proof -
  have e: "tweenCanvasData None
     \<lparr>imageData = [0, 0, 0, 0], prevCanvasData = Uint8Array [0, 0],
      newCanvasData = Uint8Array [0, 4], fadeCnt = 10\<rparr> =
   Inr \<lparr>imageData = [153, 255, 255, 255], prevCanvasData = Uint8Array [0, 0],
        newCanvasData = Uint8Array [0, 4], fadeCnt = 11\<rparr>"
    by code_simp
  have b: "binary64 (binary64 (255 * binary64 (1 - binary64 (10 / 25))) + binary64 (0 * binary64 (10 / 25))) = 153"
    "binary64 (binary64 (255 * binary64 (1 - binary64 (10 / 25))) + binary64 (255 * binary64 (10 / 25))) = 255"
    by code_simp+
  from blend_channels[OF e, of "[0, 0]" "[0, 4]" 0] e b show ?thesis
    by simp
qed

text \<open>
  C4 as stated fails: at step 20 of a fade from sample 0 to sample 1408 (bytes 128 and 5)
  the channels G are 255 and 765/8 and the formula gives 255/2, but the entry G is the
  double below it, 127.49999999999999, and the array holds the byte 127, not 128.
\<close>

theorem blend_not_exact:
  "tweenCanvasData None
     \<lparr>imageData = [0, 0, 0, 0], prevCanvasData = Uint8Array [0, 0],
      newCanvasData = Uint8Array [128, 5], fadeCnt = 20\<rparr> =
   Inr \<lparr>imageData = [3588805953060863 / 70368744177664, 8972014882652159 / 70368744177664,
                     8972014882652159 / 70368744177664, 255],
        prevCanvasData = Uint8Array [0, 0], newCanvasData = Uint8Array [128, 5], fadeCnt = 21\<rparr> \<and>
   total_of [0, 0] 0 = 0 \<and> total_of [128, 5] 0 = 1408 \<and>
   snd (val 0) = 255 \<and> snd (val 1408) = 765 / 8 \<and>
   255 * (1 - 20 / 25) + 765 / 8 * (20 / 25) = (255 / 2 :: rat) \<and>
   (8972014882652159 / 70368744177664 :: rat) \<noteq> 255 / 2 \<and>
   toUint8Clamp (8972014882652159 / 70368744177664) = 127 \<and> toUint8Clamp (255 / 2) = 128"
proof -
  have "tweenCanvasData None
     \<lparr>imageData = [0, 0, 0, 0], prevCanvasData = Uint8Array [0, 0],
      newCanvasData = Uint8Array [128, 5], fadeCnt = 20\<rparr> =
   Inr \<lparr>imageData = [3588805953060863 / 70368744177664, 8972014882652159 / 70368744177664,
                     8972014882652159 / 70368744177664, 255],
        prevCanvasData = Uint8Array [0, 0], newCanvasData = Uint8Array [128, 5], fadeCnt = 21\<rparr>"
    by code_simp
  moreover have "total_of [0, 0] 0 = 0" "total_of [128, 5] 0 = 1408"
    by code_simp+
  moreover have "snd (val 0) = 255" "snd (val 1408) = 765 / 8"
    by (simp_all add: val_def BB_MathUtils_map_def)
  moreover have "toUint8Clamp (8972014882652159 / 70368744177664) = 127" "toUint8Clamp (255 / 2) = 128"
    by code_simp+
  ultimately show ?thesis by simp
qed

text \<open>
  C5 as the source has it. \<^verbatim>\<open>updateCanvasData\<close> has no check of the length and no way to fail.
  The last byte of a frame of odd length is encoded as the low byte of a sample whose
  high byte is 0: the result is that of the frame with one 0 byte appended. The pixel
  array keeps its length.
\<close>

theorem odd_length_reads_zero:
  assumes "odd (length depth)"
  shows "updateCanvasData depth s = updateCanvasData (depth @ [0]) s \<and>
         length (imageData (updateCanvasData depth s)) = length (imageData s)"
  using assms by (simp add: updateCanvasData_def updateLoop_append_zero updateLoop_length)

text \<open>
  C5 as the source has it, at a concrete input: a frame of three bytes.
\<close>

theorem odd_length_reads_zero_witness:
  "odd (length [0, 4, 5 :: byte]) \<and>
   updateCanvasData [0, 4, 5] \<lparr>imageData = replicate 8 7, prevCanvasData = Null, newCanvasData = Null, fadeCnt = 0\<rparr> =
   updateCanvasData [0, 4, 5, 0] \<lparr>imageData = replicate 8 7, prevCanvasData = Null, newCanvasData = Null, fadeCnt = 0\<rparr>"
  using odd_length_reads_zero[of "[0, 4, 5]" "\<lparr>imageData = replicate 8 7, prevCanvasData = Null, newCanvasData = Null, fadeCnt = 0\<rparr>"]
  by simp

text \<open>
  C5 as stated fails: the frame of the single byte 5 is accepted, and its byte is encoded
  as the sample 5.
\<close>

theorem odd_length_accepted:
  "updateCanvasData [5]
     \<lparr>imageData = [0, 0, 0, 0], prevCanvasData = Null, newCanvasData = Null, fadeCnt = 0\<rparr> =
   \<lparr>imageData = [259845 / 1024, 255, 255, 255], prevCanvasData = Null, newCanvasData = Null,
    fadeCnt = 0\<rparr>"
  by (simp add: updateCanvasData_def updateLoop.simps total_of_def operand_def val_def
        BB_MathUtils_map_def)

text \<open>
  C6 as the source has it. There is no check that the two frames have the same length.
  During a fade, with both frames present, a callback succeeds whatever the lengths are.
  Its loop runs over the length of the previous frame; bytes past the end of the new
  frame read as 0 and bytes of the new frame past the reach of the loop are not read, so
  the pixel array is the one obtained with the new frame cut or padded with 0 to one
  byte more than the previous frame. The array keeps its length, and so do the frames.
\<close>

theorem tick_length_mismatch:
  assumes "fadeCnt s \<noteq> 0"
    and "prevCanvasData s = Uint8Array p" and "newCanvasData s = Uint8Array c"
  shows "\<exists>s' s''. tweenCanvasData None s = Inr s' \<and>
           tweenCanvasData None
             (s\<lparr>newCanvasData := Uint8Array (take (length p + 1) (c @ replicate (length p + 1) 0))\<rparr>) = Inr s'' \<and>
           imageData s' = imageData s'' \<and>
           length (imageData s') = length (imageData s) \<and>
           prevCanvasData s' = Uint8Array p \<and> newCanvasData s' = Uint8Array c"
proof -
  let ?c' = "take (length p + 1) (c @ replicate (length p + 1) 0)"
  have "tweenLoop p (Uint8Array c) pf nf 0 0 data = tweenLoop p (Uint8Array ?c') pf nf 0 0 data" for pf nf data
    by (rule tweenLoop_cong, rule operand_fit[symmetric]) simp
  then show ?thesis using assms
    by (simp add: tick_mid[of s p c] tick_mid[of _ p ?c'] tweenLoop_length)
qed

text \<open>
  C6 as the source has it, at a concrete input: a previous frame of two samples and a new
  frame of one.
\<close>

theorem tick_length_mismatch_witness:
  "fadeCnt \<lparr>imageData = [0, 0, 0, 0, 0, 0, 0, 0], prevCanvasData = Uint8Array [0, 0, 0, 4],
      newCanvasData = Uint8Array [0, 0], fadeCnt = 5\<rparr> \<noteq> 0 \<and>
   take (length [0, 0, 0, 4 :: byte] + 1) ([0, 0 :: byte] @ replicate (length [0, 0, 0, 4 :: byte] + 1) 0) = [0, 0, 0, 0, 0] \<and>
   (\<exists>s' s''. tweenCanvasData None \<lparr>imageData = [0, 0, 0, 0, 0, 0, 0, 0], prevCanvasData = Uint8Array [0, 0, 0, 4],
      newCanvasData = Uint8Array [0, 0], fadeCnt = 5\<rparr> = Inr s' \<and>
      tweenCanvasData None \<lparr>imageData = [0, 0, 0, 0, 0, 0, 0, 0], prevCanvasData = Uint8Array [0, 0, 0, 4],
      newCanvasData = Uint8Array [0, 0, 0, 0, 0], fadeCnt = 5\<rparr> = Inr s'' \<and>
      imageData s' = imageData s'')"
  using tick_length_mismatch[of "\<lparr>imageData = [0, 0, 0, 0, 0, 0, 0, 0], prevCanvasData = Uint8Array [0, 0, 0, 4],
      newCanvasData = Uint8Array [0, 0], fadeCnt = 5\<rparr>" "[0, 0, 0, 4]" "[0, 0]"]
  by (auto simp: numeral_eq_Suc)

text \<open>
  C6 as stated fails: with a previous frame of two samples (0 and 1024) and a new frame
  of one sample, the callback at step 5 returns, and the second pixel is blended with
  the encoding of a sample that the new frame does not have.
\<close>

theorem length_mismatch_accepted:
  "tweenCanvasData None
     \<lparr>imageData = [0, 0, 0, 0, 0, 0, 0, 0], prevCanvasData = Uint8Array [0, 0, 0, 4],
      newCanvasData = Uint8Array [0, 0], fadeCnt = 5\<rparr> =
   Inr \<lparr>imageData = [255, 255, 255, 255, 51, 255, 255, 255],
        prevCanvasData = Uint8Array [0, 0, 0, 4], newCanvasData = Uint8Array [0, 0], fadeCnt = 6\<rparr>"
  by code_simp

text \<open>
  C7. In every reachable object the step counter is between 0 and 25, the divisor
  \<open>steps\<close> is not 0, and the weight \<open>fadeCnt / steps\<close> is between 0 and 1. A call that returns
  leaves the counter one higher, or at 0 when that would exceed 25; a call that throws
  leaves it as it was. The two doubles that the next call uses as weights are between 0
  and 1 as well.
\<close>

theorem fadeCnt_range:
  assumes "reachable s"
  shows "0 \<le> fadeCnt s \<and> fadeCnt s \<le> steps \<and> steps \<noteq> 0 \<and>
         0 \<le> (of_int (fadeCnt s) / of_int steps :: rat) \<and> (of_int (fadeCnt s) / of_int steps :: rat) \<le> 1 \<and>
         (\<forall>depth s'. tweenCanvasData depth s = Inr s' \<longrightarrow>
            fadeCnt s' = (if fadeCnt s + 1 > steps then 0 else fadeCnt s + 1) \<and>
            0 \<le> fadeCnt s' \<and> fadeCnt s' \<le> steps) \<and>
         (\<forall>depth e s'. tweenCanvasData depth s = Inl (e, s') \<longrightarrow> fadeCnt s' = fadeCnt s) \<and>
         0 \<le> newFade (fadeCnt s) \<and> newFade (fadeCnt s) \<le> 1 \<and>
         0 \<le> prevFade (fadeCnt s) \<and> prevFade (fadeCnt s) \<le> 1"
proof -
  from reachable_fadeCnt[OF assms] have r: "0 \<le> fadeCnt s" "fadeCnt s \<le> steps" by simp_all
  have "steps \<noteq> 0" by (simp add: steps_def)
  moreover have "0 \<le> (of_int (fadeCnt s) / of_int steps :: rat)" "(of_int (fadeCnt s) / of_int steps :: rat) \<le> 1"
    using r by (simp_all add: steps_def)
  moreover have "fadeCnt s' = (if fadeCnt s + 1 > steps then 0 else fadeCnt s + 1) \<and> 0 \<le> fadeCnt s' \<and> fadeCnt s' \<le> steps"
    if "tweenCanvasData depth s = Inr s'" for depth s'
    using tweenCanvasData_Inr(1)[OF that] r by (auto simp: steps_def)
  moreover have "fadeCnt s' = fadeCnt s" if "tweenCanvasData depth s = Inl (e, s')" for depth e s'
    using tweenCanvasData_Inl(1)[OF that] .
  moreover note fade_unit[OF r]
  ultimately show ?thesis using r by blast
qed

text \<open>
  C7, at a concrete input: the object the constructor returns when it is given no
  \<^verbatim>\<open>initDepth\<close>.
\<close>

theorem fadeCnt_range_witness:
  "reachable \<lparr>imageData = replicate (640 * 480 * 4) 0, prevCanvasData = Null,
              newCanvasData = Null, fadeCnt = 0\<rparr> \<and>
   0 \<le> fadeCnt \<lparr>imageData = replicate (640 * 480 * 4) 0, prevCanvasData = Null,
              newCanvasData = Null, fadeCnt = 0\<rparr> \<and>
   fadeCnt \<lparr>imageData = replicate (640 * 480 * 4) 0, prevCanvasData = Null,
              newCanvasData = Null, fadeCnt = 0\<rparr> \<le> steps \<and>
   (\<exists>s'. tweenCanvasData (Some [0, 2])
           \<lparr>imageData = replicate (640 * 480 * 4) 0, prevCanvasData = Null,
            newCanvasData = Null, fadeCnt = 0\<rparr> = Inr s' \<and>
         fadeCnt s' = 1 \<and> fadeCnt s' \<le> steps)"
proof -
  let ?s = "\<lparr>imageData = replicate (640 * 480 * 4) 0, prevCanvasData = Null,
             newCanvasData = Null, fadeCnt = 0\<rparr>"
  have r: "reachable ?s"
    by (rule reachable.constructed[of None]) (simp add: constructor_def)
  obtain s' where c: "tweenCanvasData (Some [0, 2]) ?s = Inr s'"
    using first_call[of ?s "[0, 2]"] by simp
  from fadeCnt_range[OF r] c have "fadeCnt s' = 1" "fadeCnt s' \<le> steps"
    by (auto simp: steps_def)
  with fadeCnt_range[OF r] r c show ?thesis by auto
qed




text \<open>
  C9. The G entry as a function of the total: above 1024 it is \<open>255 (t - 1024) / 1024\<close>,
  which increases strictly with \<open>t\<close>; at 1024 it is 255 and at 1025 it is \<open>255/1024\<close>, a drop
  of \<open>255 * 1023 / 1024\<close> over one unit of depth.
\<close>

theorem high_channel_jump:
  "(1024 < t \<longrightarrow> snd (val t) = 255 * (of_int t - 1024) / 1024) \<and>
   (1024 < t \<longrightarrow> t < t' \<longrightarrow> snd (val t) < snd (val t')) \<and>
   snd (val 1024) = 255 \<and> snd (val 1025) = 255 / 1024 \<and>
   snd (val 1024) - snd (val 1025) = 255 * 1023 / 1024"
  by (simp add: val_def BB_MathUtils_map_def field_simps)

text \<open>
  C9, at a concrete input: the totals 1025 and 2048.
\<close>

theorem high_channel_jump_witness:
  "(1024 < (1025::int)) \<and> (1025::int) < 2048 \<and> snd (val 1025) = 255 / 1024 \<and> snd (val 1025) < snd (val 2048) \<and> snd (val 2048) = 255"
  using high_channel_jump[of 1025 2048] by (simp add: val_def BB_MathUtils_map_def)




end
